theory Spec2Isabelle
  imports Main
begin

section \<open>Data model\<close>

text \<open>
  JavaScript objects have an identity, HOL values do not. Wherever the program keys a
  \<open>Set\<close> or a \<open>Map\<close> by an object, the record modelling that object carries the
  identity as a field (\<open>nodeId\<close>, \<open>locId\<close>), so that equality of records is identity
  of objects.
\<close>

text \<open>
  A \<open>ts.Node\<close> object: its identity and its own properties \<open>pos\<close> (the full start,
  leading trivia included), \<open>end\<close> (here \<open>nodeEnd\<close>) and \<open>parent\<close> (the identity of the
  parent node, \<open>None\<close> for a source file). Its other own properties (\<open>kind\<close>, \<open>flags\<close>,
  the references to its children) are read nowhere in this development; the children are in
  the tree below.
\<close>

record NodeObj =
  nodeId :: nat
  pos :: int
  nodeEnd :: int
  parent :: "nat option"

text \<open>
  The methods of \<open>ts.Node\<close> that \<open>parser.ts\<close> calls. Their code is the type checker's
  library, outside this development: \<open>getSourceFileName node\<close> stands for
  \<open>node.getSourceFile().fileName\<close>, \<open>getStart node\<close> for \<open>node.getStart()\<close> (the start
  without the leading trivia) and \<open>getEnd node\<close> for \<open>node.getEnd()\<close>. They are methods
  of the prototype, not own properties of the node.
\<close>

record NodeMethods =
  getSourceFileName :: "NodeObj \<Rightarrow> string"
  getStart :: "NodeObj \<Rightarrow> int"
  getEnd :: "NodeObj \<Rightarrow> int"

text \<open>
  A syntax tree. \<open>callee\<close> is \<open>Some text\<close> exactly when \<open>ts.isCallExpression(node)\<close>
  holds, and then \<open>text\<close> is \<open>node.expression.getText()\<close>; \<open>forEachChild\<close> lists the
  children in the order \<open>ts.forEachChild\<close> visits them.
\<close>

datatype Node = Node (self: NodeObj) (callee: "string option") (forEachChild: "Node list")

text \<open>The \<open>Location\<close> of \<open>types.ts\<close>; \<open>locId\<close> is the identity of the object literal.\<close>

record Location =
  locId :: nat
  fileName :: string
  start :: int
  end' :: int

text \<open>
  A \<open>ts.Diagnostic\<close>. \<open>file\<close> holds \<open>diagnostic.file.fileName\<close> (the only property of
  the source file that is read) and is \<open>None\<close> when \<open>diagnostic.file\<close> is undefined.
  \<open>diagnosticStart\<close> is \<open>diagnostic.start\<close>, read only behind the type guard
  \<open>isDiagnosticWithLocation\<close>, whose target type gives it the type \<open>number\<close>.
\<close>

record Diagnostic =
  code :: int
  "file" :: "string option"
  diagnosticStart :: int
  messageText :: string

text \<open>
  An element of \<open>tsdResults\<close>: a result of \<open>handleAssertions\<close>, a semantic diagnostic
  pushed by the reconciliation loop, or the object
  \<open>{...error, messageText: "Expected an error, but found none."}\<close> built from the
  node of an expectation that no diagnostic satisfied. The spread copies the own properties
  of the node and nothing else, so \<open>ExpectedErrorResult node m\<close> holds \<open>pos\<close>, \<open>nodeEnd\<close>
  and \<open>parent\<close> of the node and the message \<open>m\<close>: no file, and no result of
  \<open>getStart\<close>. The object is new at every push; \<open>nodeId\<close> tells which node it copies.
\<close>

datatype 'r TsdResult =
  AssertionResult 'r
| DiagnosticResult Diagnostic
| ExpectedErrorResult NodeObj string

text \<open>The three values \<open>isIgnoredDiagnostic\<close> returns: two strings or a location.\<close>

datatype IgnoreResult = Ignore | Preserve | Matched Location

subsection \<open>Insertion-ordered \<open>Set\<close> and \<open>Map\<close>\<close>

type_synonym 'a Set = "'a list"
type_synonym ('k, 'v) Map = "('k \<times> 'v) list"

definition Set_add :: "'a \<Rightarrow> 'a Set \<Rightarrow> 'a Set" where
  "Set_add x s = (if x \<in> set s then s else s @ [x])"

definition Map_get :: "('k, 'v) Map \<Rightarrow> 'k \<Rightarrow> 'v option" where
  "Map_get m k = map_of m k"

definition Map_set :: "'k \<Rightarrow> 'v \<Rightarrow> ('k, 'v) Map \<Rightarrow> ('k, 'v) Map" where
  "Map_set k v m =
     (if k \<in> fst ` set m then map (\<lambda>(k', v'). if k' = k then (k', v) else (k', v')) m
      else m @ [(k, v)])"

definition Map_delete :: "'k \<Rightarrow> ('k, 'v) Map \<Rightarrow> ('k, 'v) Map" where
  "Map_delete k m = filter (\<lambda>(k', v'). k' \<noteq> k) m"

section \<open>The diagnostic codes\<close>

text \<open>
  \<open>ignoredDiagnostics\<close>: AwaitExpressionOnlyAllowedWithinAsyncFunction (1308) and
  TopLevelAwaitOnlyAllowedWhenModuleESNextOrSystem (1378).
\<close>

definition ignoredDiagnostics :: "int set" where
  "ignoredDiagnostics = {1308, 1378}"

text \<open>
  \<open>expectErrorDiagnosticCodesToIgnore\<close>, in the order of the source: 2345, 2339, 2540,
  2322, 2344, 2314, 2554, 2555, 2575, 2743, 2769, 2741, 2559, 2684, 2348, 2349, 2350,
  2351, 7009, 4113, 4114, 2820.
\<close>

definition expectErrorDiagnosticCodesToIgnore :: "int set" where
  "expectErrorDiagnosticCodesToIgnore =
     {2345, 2339, 2540, 2322, 2344, 2314, 2554, 2555, 2575, 2743, 2769, 2741, 2559,
      2684, 2348, 2349, 2350, 2351, 7009, 4113, 4114, 2820}"

section \<open>The classifier\<close>

definition isDiagnosticWithLocation :: "Diagnostic \<Rightarrow> bool" where
  "isDiagnosticWithLocation diagnostic \<longleftrightarrow> file diagnostic \<noteq> None"

text \<open>The test of one index entry in the \<open>for\<close> loop of \<open>isIgnoredDiagnostic\<close>.\<close>

definition contains :: "Location \<Rightarrow> Diagnostic \<Rightarrow> bool" where
  "contains location diagnostic \<longleftrightarrow>
     file diagnostic = Some (fileName location) \<and>
     diagnosticStart diagnostic > start location \<and>
     diagnosticStart diagnostic < end' location"

text \<open>The \<open>for (const [location] of expectedErrors)\<close> loop, with its \<open>return\<close>s.\<close>

fun scan :: "Diagnostic \<Rightarrow> (Location, 'v) Map \<Rightarrow> IgnoreResult" where
  "scan diagnostic [] = Preserve"
| "scan diagnostic ((location, error) # rest) =
     (if contains location diagnostic then Matched location else scan diagnostic rest)"

definition isIgnoredDiagnostic :: "Diagnostic \<Rightarrow> (Location, 'v) Map \<Rightarrow> IgnoreResult" where
  "isIgnoredDiagnostic diagnostic expectedErrors =
     (if code diagnostic \<in> ignoredDiagnostics then Ignore
      else if code diagnostic \<notin> expectErrorDiagnosticCodesToIgnore then Preserve
      else scan diagnostic expectedErrors)"

section \<open>Extraction of the assertions (\<open>parser.ts\<close>)\<close>

text \<open>
  The enum \<open>Assertion\<close> of \<open>handleAssertions.ts\<close> is a string enum; its values
  (\<open>assertionFnNames\<close>) and its member \<open>EXPECT_ERROR\<close> are parameters of the model.
\<close>

type_synonym Assertion = string

text \<open>The body of the \<open>if (ts.isCallExpression(node))\<close> of \<open>visit\<close>.\<close>

definition visitCall ::
  "Assertion list \<Rightarrow> NodeObj \<Rightarrow> string option \<Rightarrow> (Assertion, NodeObj Set) Map \<Rightarrow>
     (Assertion, NodeObj Set) Map" where
  "visitCall assertionFnNames node c assertions =
     (case c of
        None \<Rightarrow> assertions
      | Some identifier \<Rightarrow>
          if identifier \<in> set assertionFnNames then
            let nodes = (case Map_get assertions identifier of Some s \<Rightarrow> s | None \<Rightarrow> [])
            in Map_set identifier (Set_add node nodes) assertions
          else assertions)"

fun visit ::
  "Assertion list \<Rightarrow> Node \<Rightarrow> (Assertion, NodeObj Set) Map \<Rightarrow> (Assertion, NodeObj Set) Map" where
  "visit assertionFnNames (Node node c children) assertions =
     fold (visit assertionFnNames) children (visitCall assertionFnNames node c assertions)"

text \<open>\<open>assertions.forEach((nodes) => { assertionCount += nodes.size })\<close>.\<close>

fun countNodes :: "(Assertion, NodeObj Set) Map \<Rightarrow> nat \<Rightarrow> nat" where
  "countNodes [] assertionCount = assertionCount"
| "countNodes ((assertion, nodes) # rest) assertionCount =
     countNodes rest (assertionCount + length nodes)"

definition extractAssertions ::
  "Assertion list \<Rightarrow> Node list \<Rightarrow> (Assertion, NodeObj Set) Map \<times> nat" where
  "extractAssertions assertionFnNames sourceFiles =
     (let assertions = fold (visit assertionFnNames) sourceFiles []
      in (assertions, countNodes assertions 0))"

text \<open>
  The loop of \<open>parseErrorAssertionToLocation\<close>. Every iteration builds a new object
  literal; its identity is the number of objects built before it.
\<close>

fun parseLoop ::
  "NodeMethods \<Rightarrow> NodeObj list \<Rightarrow> (Location, NodeObj) Map \<Rightarrow> (Location, NodeObj) Map" where
  "parseLoop ts [] expectedErrors = expectedErrors"
| "parseLoop ts (node # nodes) expectedErrors =
     (let location = \<lparr>locId = length expectedErrors, fileName = getSourceFileName ts node,
                       start = getStart ts node, end' = getEnd ts node\<rparr>
      in parseLoop ts nodes (Map_set location node expectedErrors))"

definition parseErrorAssertionToLocation ::
  "NodeMethods \<Rightarrow> Assertion \<Rightarrow> (Assertion, NodeObj Set) Map \<Rightarrow> (Location, NodeObj) Map" where
  "parseErrorAssertionToLocation ts EXPECT_ERROR assertions =
     (case Map_get assertions EXPECT_ERROR of
        None \<Rightarrow> []
      | Some nodes \<Rightarrow> parseLoop ts nodes [])"

section \<open>The pipeline (\<open>tsdLite\<close>)\<close>

text \<open>
  \<open>/[/\\]node_modules[/\\]/.test(s)\<close>: somewhere in \<open>s\<close> a slash or a backslash, then
  the twelve characters \<open>node_modules\<close>, then a slash or a backslash.
\<close>

definition isSeparator :: "char \<Rightarrow> bool" where
  "isSeparator c \<longleftrightarrow> c = CHR ''/'' \<or> c = CHR 0x5C"

fun nodeModulesTest :: "string \<Rightarrow> bool" where
  "nodeModulesTest [] = False"
| "nodeModulesTest (c # cs) =
     ((isSeparator c \<and> take 12 cs = ''node_modules'' \<and>
       (case drop 12 cs of [] \<Rightarrow> False | d # r \<Rightarrow> isSeparator d))
      \<or> nodeModulesTest cs)"

text \<open>
  The loop over \<open>semanticDiagnostics\<close>. Its state is the pair of the two arrays it
  pushes to: \<open>tsdResults\<close> and \<open>expectedErrorsLocationsWithFoundDiagnostics\<close>.
\<close>

fun reconcile ::
  "(Location, 'v) Map \<Rightarrow> Diagnostic list \<Rightarrow> 'r TsdResult list \<times> Location list \<Rightarrow>
     'r TsdResult list \<times> Location list" where
  "reconcile expectedErrors [] st = st"
| "reconcile expectedErrors (diagnostic # rest) (tsdResults, found) =
     (case file diagnostic of
        None \<Rightarrow> reconcile expectedErrors rest (tsdResults, found)
      | Some diagnosticFileName \<Rightarrow>
          if nodeModulesTest diagnosticFileName
          then reconcile expectedErrors rest (tsdResults, found)
          else
            (case isIgnoredDiagnostic diagnostic expectedErrors of
               Preserve \<Rightarrow>
                 reconcile expectedErrors rest (tsdResults @ [DiagnosticResult diagnostic], found)
             | Ignore \<Rightarrow> reconcile expectedErrors rest (tsdResults, found)
             | Matched location \<Rightarrow>
                 reconcile expectedErrors rest (tsdResults, found @ [location])))"

text \<open>\<open>for (const errorLocationToRemove of ...) expectedErrors.delete(errorLocationToRemove)\<close>.\<close>

fun deleteFound :: "Location list \<Rightarrow> (Location, 'v) Map \<Rightarrow> (Location, 'v) Map" where
  "deleteFound [] expectedErrors = expectedErrors"
| "deleteFound (errorLocationToRemove # rest) expectedErrors =
     deleteFound rest (Map_delete errorLocationToRemove expectedErrors)"

text \<open>
  \<open>for (const [, error] of expectedErrors) tsdResults.push({...error, messageText})\<close>:
  \<open>error\<close> is the node that \<open>parseErrorAssertionToLocation\<close> stored, and the object pushed
  is a copy of its own properties with the message added.
\<close>

fun pushNotFound ::
  "(Location, NodeObj) Map \<Rightarrow> 'r TsdResult list \<Rightarrow> 'r TsdResult list" where
  "pushNotFound [] tsdResults = tsdResults"
| "pushNotFound ((location, error) # rest) tsdResults =
     pushNotFound rest
       (tsdResults @ [ExpectedErrorResult error ''Expected an error, but found none.''])"

text \<open>What \<open>tsdLite\<close> uses of a \<open>ts.Program\<close>.\<close>

record 'tc Program =
  getSyntacticDiagnostics :: "Diagnostic list"
  getSemanticDiagnostics :: "Diagnostic list"
  getTypeChecker :: 'tc
  getSourceFiles :: "Node list"

text \<open>
  The collaborators \<open>tsdLite\<close> imports, whose code is outside this development:
  \<open>resolveCompilerOptions\<close>, \<open>ts.createProgram\<close>, the methods of \<open>ts.Node\<close>,
  \<open>handleAssertions\<close> and the enum \<open>Assertion\<close>.
\<close>

record ('o, 'tc, 'r) Imports =
  resolveCompilerOptions :: "string \<Rightarrow> 'o \<times> Diagnostic list"
  createProgram :: "string list \<Rightarrow> 'o \<Rightarrow> 'tc Program"
  nodeMethods :: NodeMethods
  handleAssertions :: "'tc \<Rightarrow> (Assertion, NodeObj Set) Map \<Rightarrow> 'r list"
  assertionFnNames :: "Assertion list"
  EXPECT_ERROR :: Assertion

text \<open>The object \<open>tsdLite\<close> returns; \<open>tsdErrors\<close> is \<open>None\<close> when the key is absent.\<close>

record 'r Output =
  assertionCount :: nat
  tsdResults :: "'r TsdResult list"
  tsdErrors :: "Diagnostic list option"

text \<open>Lines 126 to 174 of \<open>tsdLite\<close>: what runs once both gates are passed.\<close>

definition checkProgram :: "('o, 'tc, 'r) Imports \<Rightarrow> 'tc Program \<Rightarrow> 'r Output" where
  "checkProgram imports program =
     (let semanticDiagnostics = getSemanticDiagnostics program;
          typeChecker = getTypeChecker program;
          (assertions, count) = extractAssertions (assertionFnNames imports) (getSourceFiles program);
          results = map AssertionResult (handleAssertions imports typeChecker assertions);
          expectedErrors =
            parseErrorAssertionToLocation (nodeMethods imports) (EXPECT_ERROR imports) assertions;
          (results', found) = reconcile expectedErrors semanticDiagnostics (results, []);
          expectedErrors' = deleteFound found expectedErrors
      in \<lparr>assertionCount = count, tsdResults = pushNotFound expectedErrors' results',
          tsdErrors = None\<rparr>)"

definition tsdLite :: "('o, 'tc, 'r) Imports \<Rightarrow> string \<Rightarrow> 'r Output" where
  "tsdLite imports testFilePath =
     (let (compilerOptions, configDiagnostics) = resolveCompilerOptions imports testFilePath
      in if configDiagnostics \<noteq> []
         then \<lparr>assertionCount = 0, tsdResults = [], tsdErrors = Some configDiagnostics\<rparr>
         else
           let program = createProgram imports [testFilePath] compilerOptions;
               syntacticDiagnostics = getSyntacticDiagnostics program
           in if syntacticDiagnostics \<noteq> []
              then \<lparr>assertionCount = 0, tsdResults = [], tsdErrors = Some syntacticDiagnostics\<rparr>
              else checkProgram imports program)"

section \<open>Notions used to state the properties\<close>

text \<open>
  A semantic diagnostic is classified when it passes the two guards at the head of the
  loop body: it has a file, and the file name does not match the dependency pattern.
\<close>

definition classified :: "Diagnostic \<Rightarrow> bool" where
  "classified diagnostic \<longleftrightarrow>
     (case file diagnostic of None \<Rightarrow> False | Some f \<Rightarrow> \<not> nodeModulesTest f)"

text \<open>
  The specification's words for the match of an entry: the same file name, and
  \<open>entry.start < diagnostic.start < entry.end\<close>, both bounds exclusive.
\<close>

definition strictlyInside :: "Diagnostic \<Rightarrow> Location \<Rightarrow> bool" where
  "strictlyInside diagnostic entry \<longleftrightarrow>
     file diagnostic = Some (fileName entry) \<and>
     start entry < diagnosticStart diagnostic \<and> diagnosticStart diagnostic < end' entry"

text \<open>The diagnostics of a list that the loop surfaces, in order.\<close>

definition preserved :: "(Location, 'v) Map \<Rightarrow> Diagnostic list \<Rightarrow> Diagnostic list" where
  "preserved expectedErrors ds =
     filter (\<lambda>d. classified d \<and> isIgnoredDiagnostic d expectedErrors = Preserve) ds"

text \<open>The location a diagnostic records as found (at most one), and those of a list.\<close>

definition matchOf :: "(Location, 'v) Map \<Rightarrow> Diagnostic \<Rightarrow> Location list" where
  "matchOf expectedErrors d =
     (if classified d
      then (case isIgnoredDiagnostic d expectedErrors of Matched l \<Rightarrow> [l] | Ignore \<Rightarrow> [] | Preserve \<Rightarrow> [])
      else [])"

definition foundLocations :: "(Location, 'v) Map \<Rightarrow> Diagnostic list \<Rightarrow> Location list" where
  "foundLocations expectedErrors ds = concat (map (matchOf expectedErrors) ds)"

text \<open>An entry is matched by a list of diagnostics when the classifier returns it for one of them.\<close>

definition matchedBy :: "(Location, 'v) Map \<Rightarrow> Diagnostic list \<Rightarrow> Location \<Rightarrow> bool" where
  "matchedBy expectedErrors ds l \<longleftrightarrow>
     (\<exists>d \<in> set ds. classified d \<and> isIgnoredDiagnostic d expectedErrors = Matched l)"

definition notFound :: "Location \<times> NodeObj \<Rightarrow> 'r TsdResult" where
  "notFound entry = ExpectedErrorResult (snd entry) ''Expected an error, but found none.''"

text \<open>The assertions and the Expected-Error Index that \<open>tsdLite\<close> computes for a program.\<close>

definition assertionsOf ::
  "('o, 'tc, 'r) Imports \<Rightarrow> 'tc Program \<Rightarrow> (Assertion, NodeObj Set) Map" where
  "assertionsOf imports program =
     fst (extractAssertions (assertionFnNames imports) (getSourceFiles program))"

definition expectedErrorsOf ::
  "('o, 'tc, 'r) Imports \<Rightarrow> 'tc Program \<Rightarrow> (Location, NodeObj) Map" where
  "expectedErrorsOf imports program =
     parseErrorAssertionToLocation (nodeMethods imports) (EXPECT_ERROR imports)
       (assertionsOf imports program)"

text \<open>The nodes of a tree in the order \<open>visit\<close> reaches them, and the recognized calls among them.\<close>

fun nodesOf :: "Node \<Rightarrow> Node list" where
  "nodesOf (Node node c children) = Node node c children # concat (map nodesOf children)"

definition recognizedCalls :: "Assertion list \<Rightarrow> Node list \<Rightarrow> (Assertion \<times> NodeObj) list" where
  "recognizedCalls names sourceFiles =
     concat (map (\<lambda>n. case callee n of
                         None \<Rightarrow> []
                       | Some identifier \<Rightarrow> if identifier \<in> set names then [(identifier, self n)] else [])
                 (concat (map nodesOf sourceFiles)))"

text \<open>One recognized call recorded in the map, as the body of \<open>visit\<close> does it.\<close>

definition addCall ::
  "Assertion \<times> NodeObj \<Rightarrow> (Assertion, NodeObj Set) Map \<Rightarrow> (Assertion, NodeObj Set) Map" where
  "addCall c assertions =
     Map_set (fst c)
       (Set_add (snd c) (case Map_get assertions (fst c) of Some s \<Rightarrow> s | None \<Rightarrow> []))
       assertions"

text \<open>The pairs of a kind and a node that a map of sets holds, and the sum of the sizes of its sets.\<close>

definition members :: "(Assertion, NodeObj Set) Map \<Rightarrow> (Assertion \<times> NodeObj) set" where
  "members assertions = {(k, x). \<exists>s. (k, s) \<in> set assertions \<and> x \<in> set s}"

definition sizes :: "(Assertion, NodeObj Set) Map \<Rightarrow> nat" where
  "sizes assertions = sum_list (map (\<lambda>entry. length (snd entry)) assertions)"

text \<open>The key of the entry that \<open>parseErrorAssertionToLocation\<close> builds for its \<open>i\<close>-th node.\<close>

definition locationOf :: "NodeMethods \<Rightarrow> nat \<Rightarrow> NodeObj \<Rightarrow> Location" where
  "locationOf ts i node =
     \<lparr>locId = i, fileName = getSourceFileName ts node, start = getStart ts node,
      end' = getEnd ts node\<rparr>"

text \<open>A JavaScript \<open>Map\<close> of \<open>Set\<close>s holds every key once and every element of a set once.\<close>

definition isMapOfSets :: "(Assertion, NodeObj Set) Map \<Rightarrow> bool" where
  "isMapOfSets A \<longleftrightarrow> distinct (map fst A) \<and> (\<forall>entry \<in> set A. distinct (snd entry))"

text \<open>
  The results \<open>handleAssertions\<close> seeds \<open>tsdResults\<close> with, the state of the loop over the
  semantic diagnostics when it ends, and the index once the found locations are deleted.
\<close>

definition seedResults :: "('o, 'tc, 'r) Imports \<Rightarrow> 'tc Program \<Rightarrow> 'r TsdResult list" where
  "seedResults imports program =
     map AssertionResult
       (handleAssertions imports (getTypeChecker program) (assertionsOf imports program))"

definition reconciled ::
  "('o, 'tc, 'r) Imports \<Rightarrow> 'tc Program \<Rightarrow> 'r TsdResult list \<times> Location list" where
  "reconciled imports program =
     reconcile (expectedErrorsOf imports program) (getSemanticDiagnostics program)
       (seedResults imports program, [])"

definition remainingExpectedErrors ::
  "('o, 'tc, 'r) Imports \<Rightarrow> 'tc Program \<Rightarrow> (Location, NodeObj) Map" where
  "remainingExpectedErrors imports program =
     deleteFound (snd (reconciled imports program)) (expectedErrorsOf imports program)"

section \<open>Concrete inputs\<close>

text \<open>Two nested expectation spans of one test file, and a diagnostic at a given place.\<close>

definition outer :: Location where
  "outer = \<lparr>locId = 0, fileName = ''/p/a.test.ts'', start = 10, end' = 40\<rparr>"

definition inner :: Location where
  "inner = \<lparr>locId = 1, fileName = ''/p/a.test.ts'', start = 20, end' = 30\<rparr>"

text \<open>A span of the same file after the outer one.\<close>

definition later :: Location where
  "later = \<lparr>locId = 1, fileName = ''/p/a.test.ts'', start = 50, end' = 80\<rparr>"

definition dg :: "int \<Rightarrow> string \<Rightarrow> int \<Rightarrow> Diagnostic" where
  "dg c f s = \<lparr>code = c, file = Some f, diagnosticStart = s, messageText = ''m''\<rparr>"

text \<open>
  A program of two source files. The test file holds an \<open>expectError\<close> call around a call
  \<open>f(...)\<close>, a second \<open>expectError\<close> call and an \<open>expectType\<close> call; the file it imports
  holds one \<open>expectType\<close> call. Every node but the two source files comes after two
  characters of trivia, so its start is two more than its \<open>pos\<close>: the two \<open>expectError\<close>
  calls span 10 to 40 and 50 to 80.
\<close>

definition nd :: "nat \<Rightarrow> int \<Rightarrow> int \<Rightarrow> nat option \<Rightarrow> NodeObj" where
  "nd i p e up = \<lparr>nodeId = i, pos = p, nodeEnd = e, parent = up\<rparr>"

definition testFile :: Node where
  "testFile =
     Node (nd 0 0 100 None) None
       [Node (nd 1 8 40 (Some 0)) (Some ''expectError'')
          [Node (nd 2 20 28 (Some 1)) (Some ''f'') []],
        Node (nd 3 48 80 (Some 0)) (Some ''expectError'') [],
        Node (nd 4 83 95 (Some 0)) (Some ''expectType'') []]"

definition importedFile :: Node where
  "importedFile =
     Node (nd 5 0 50 None) None
       [Node (nd 6 3 20 (Some 5)) (Some ''expectType'') []]"

text \<open>The methods of the nodes of this program, the test file being at the path \<open>path\<close>.\<close>

definition methodsAt :: "string \<Rightarrow> NodeMethods" where
  "methodsAt path =
     \<lparr>getSourceFileName = (\<lambda>node. if nodeId node = 5 \<or> nodeId node = 6 then ''/p/helper.ts'' else path),
      getStart = (\<lambda>node. if parent node = None then pos node else pos node + 2),
      getEnd = nodeEnd\<rparr>"

definition prog :: "Diagnostic list \<Rightarrow> unit Program" where
  "prog ds = \<lparr>getSyntacticDiagnostics = [], getSemanticDiagnostics = ds, getTypeChecker = (),
              getSourceFiles = [testFile, importedFile]\<rparr>"

text \<open>
  Collaborators: a configuration resolution that reports the diagnostics \<open>cs\<close>, a checker
  that reports the syntactic diagnostics \<open>ss\<close> and the semantic diagnostics \<open>ds\<close>, and an
  evaluator that returns one result.
\<close>

definition imps :: "Diagnostic list \<Rightarrow> Diagnostic list \<Rightarrow> Diagnostic list \<Rightarrow> (unit, unit, nat) Imports" where
  "imps cs ss ds =
     \<lparr>resolveCompilerOptions = (\<lambda>path. ((), cs)),
      createProgram = (\<lambda>paths options. (prog ds)\<lparr>getSyntacticDiagnostics := ss\<rparr>),
      nodeMethods = methodsAt ''/p/a.test.ts'',
      handleAssertions = (\<lambda>typeChecker assertions. [42]),
      assertionFnNames = [''expectError'', ''expectType''],
      EXPECT_ERROR = ''expectError''\<rparr>"


text \<open>Two diagnostics with suppressible codes inside the first \<open>expectError\<close> call.\<close>

definition twoInside :: "Diagnostic list" where
  "twoInside = [dg 2322 ''/p/a.test.ts'' 25, dg 2345 ''/p/a.test.ts'' 25]"

text \<open>A diagnostic without a file, as the checker reports one that belongs to no source file.\<close>

definition globalDiagnostic :: "int \<Rightarrow> Diagnostic" where
  "globalDiagnostic c = \<lparr>code = c, file = None, diagnosticStart = 25, messageText = ''m''\<rparr>"

text \<open>A declaration file of a dependency.\<close>

definition dependencyFile :: string where
  "dependencyFile = ''/p/node_modules/lib/index.d.ts''"

text \<open>A diagnostic with a suppressible code in that file, before every expectation span.\<close>

definition dependencyDiagnostic :: Diagnostic where
  "dependencyDiagnostic = dg 2322 dependencyFile 5"

text \<open>Three diagnostics with suppressible codes inside the first \<open>expectError\<close> call.\<close>

definition threeInside :: "Diagnostic list" where
  "threeInside = [dg 2322 ''/p/a.test.ts'' 25, dg 2345 ''/p/a.test.ts'' 25, dg 2322 ''/p/a.test.ts'' 30]"

section \<open>The classifier and the loops, characterised\<close>

lemma scan_find:
  "scan d m = (case find (\<lambda>l. contains l d) (map fst m) of None \<Rightarrow> Preserve | Some l \<Rightarrow> Matched l)"
  by (induction m) auto

lemma contains_strictlyInside: "contains l d \<longleftrightarrow> strictlyInside d l"
  by (auto simp: contains_def strictlyInside_def)

lemma codes_disjoint: "c \<in> expectErrorDiagnosticCodesToIgnore \<Longrightarrow> c \<notin> ignoredDiagnostics"
  by (auto simp: expectErrorDiagnosticCodesToIgnore_def ignoredDiagnostics_def)

lemma reconcile_eq:
  "reconcile idx ds (rs, fs) =
     (rs @ map DiagnosticResult (preserved idx ds), fs @ foundLocations idx ds)"
proof (induction ds arbitrary: rs fs)
  case Nil
  then show ?case by (simp add: preserved_def foundLocations_def)
next
  case (Cons d ds)
  show ?case
  proof (cases "classified d")
    case False
    then show ?thesis
      using Cons.IH [of rs fs]
      by (auto simp: preserved_def foundLocations_def matchOf_def classified_def split: option.splits)
  next
    case True
    then obtain f where f: "file d = Some f" "\<not> nodeModulesTest f"
      by (auto simp: classified_def split: option.splits)
    show ?thesis
    proof (cases "isIgnoredDiagnostic d idx")
      case Ignore
      then show ?thesis using True f Cons.IH [of rs fs]
        by (simp add: preserved_def foundLocations_def matchOf_def)
    next
      case Preserve
      then show ?thesis using True f Cons.IH [of "rs @ [DiagnosticResult d]" fs]
        by (simp add: preserved_def foundLocations_def matchOf_def)
    next
      case (Matched l)
      then show ?thesis using True f Cons.IH [of rs "fs @ [l]"]
        by (simp add: preserved_def foundLocations_def matchOf_def)
    qed
  qed
qed

lemma set_foundLocations: "set (foundLocations idx ds) = {l. matchedBy idx ds l}"
  by (auto simp: foundLocations_def matchOf_def matchedBy_def split: if_splits IgnoreResult.splits)

lemma deleteFound_eq: "deleteFound fs m = filter (\<lambda>entry. fst entry \<notin> set fs) m"
proof (induction fs arbitrary: m)
  case Nil
  show ?case by simp
next
  case (Cons l fs)
  have "deleteFound (l # fs) m = filter (\<lambda>entry. fst entry \<notin> set fs) (Map_delete l m)"
    using Cons.IH by simp
  also have "\<dots> = filter (\<lambda>entry. fst entry \<notin> set (l # fs)) m"
    by (induction m) (auto simp: Map_delete_def)
  finally show ?case .
qed

lemma pushNotFound_eq: "pushNotFound m rs = rs @ map notFound m"
  by (induction m arbitrary: rs) (auto simp: notFound_def)

section \<open>The extraction, characterised\<close>

lemma visitCall_addCall:
  "visitCall names node c A =
     fold addCall (case c of None \<Rightarrow> []
                   | Some identifier \<Rightarrow> if identifier \<in> set names then [(identifier, node)] else []) A"
  by (simp add: visitCall_def addCall_def split: option.splits)

lemma visit_fold: "visit names n A = fold addCall (recognizedCalls names [n]) A"
proof (induction names n A rule: visit.induct)
  case (1 names node c children A)
  have kids: "fold (visit names) children B = fold addCall (recognizedCalls names children) B" for B
    using 1
  proof (induction children arbitrary: B)
    case Nil
    show ?case by (simp add: recognizedCalls_def)
  next
    case (Cons k ks)
    have "visit names k B = fold addCall (recognizedCalls names [k]) B"
      using Cons.prems by simp
    moreover have "fold (visit names) ks B' = fold addCall (recognizedCalls names ks) B'" for B'
      using Cons.IH Cons.prems by simp
    ultimately show ?case by (simp add: recognizedCalls_def)
  qed
  show ?case
    by (simp add: kids visitCall_addCall recognizedCalls_def split: option.splits)
qed

lemma files_fold: "fold (visit names) files A = fold addCall (recognizedCalls names files) A"
proof (induction files arbitrary: A)
  case Nil
  show ?case by (simp add: recognizedCalls_def)
next
  case (Cons f fs)
  have "recognizedCalls names (f # fs) = recognizedCalls names [f] @ recognizedCalls names fs"
    by (simp add: recognizedCalls_def)
  then show ?case using Cons.IH by (simp add: visit_fold)
qed


lemma Map_set_keys:
  "map fst (Map_set k v m) = (if k \<in> fst ` set m then map fst m else map fst m @ [k])"
  by (auto simp: Map_set_def split_def)

lemma Map_set_entries:
  "set (Map_set k v m) = {e \<in> set m. fst e \<noteq> k} \<union> {(k, v)}"
  by (auto simp: Map_set_def split_def image_iff)

lemma Map_get_Some: "distinct (map fst m) \<Longrightarrow> Map_get m k = Some v \<longleftrightarrow> (k, v) \<in> set m"
  by (simp add: Map_get_def)

lemma Map_get_None: "Map_get m k = None \<longleftrightarrow> k \<notin> fst ` set m"
  by (simp add: Map_get_def map_of_eq_None_iff)

lemma addCall_isMapOfSets: "isMapOfSets A \<Longrightarrow> isMapOfSets (addCall c A)"
  unfolding isMapOfSets_def addCall_def
  by (auto simp: Map_set_keys Map_set_entries Set_add_def Map_get_Some split: option.splits)

lemma set_Set_add: "set (Set_add x s) = insert x (set s)"
  by (auto simp: Set_add_def)

lemma members_iff: "(k, y) \<in> members A \<longleftrightarrow> (\<exists>s. (k, s) \<in> set A \<and> y \<in> set s)"
  by (simp add: members_def)

lemma Map_get_cases:
  assumes "distinct (map fst A)"
  shows "(\<exists>s. (k, s) \<in> set A \<and> y \<in> set s) \<longleftrightarrow>
         y \<in> set (case Map_get A k of Some s \<Rightarrow> s | None \<Rightarrow> [])"
proof (cases "Map_get A k")
  case None
  then have "k \<notin> fst ` set A" by (simp add: Map_get_None)
  then have "\<not> (\<exists>s. (k, s) \<in> set A)" by force
  then show ?thesis using None by simp
next
  case (Some s0)
  have "(k, s) \<in> set A \<longleftrightarrow> s = s0" for s
    using Map_get_Some [OF assms, of k s] Some by auto
  then show ?thesis using Some by simp
qed

lemma addCall_members: "isMapOfSets A \<Longrightarrow> members (addCall c A) = insert c (members A)"
proof -
  assume w: "isMapOfSets A"
  obtain k x where c: "c = (k, x)" by (cases c)
  have d: "distinct (map fst A)" using w by (simp add: isMapOfSets_def)
  define s0 where "s0 = (case Map_get A k of Some s \<Rightarrow> s | None \<Rightarrow> [])"
  have E: "set (addCall c A) = {e \<in> set A. fst e \<noteq> k} \<union> {(k, Set_add x s0)}"
    by (simp add: addCall_def c Map_set_entries s0_def)
  have "(p \<in> members (addCall c A)) = (p \<in> insert c (members A))" for p
  proof -
    obtain k' y where p: "p = (k', y)" by (cases p)
    show ?thesis
    proof (cases "k' = k")
      case True
      have "(k, y) \<in> members (addCall c A) \<longleftrightarrow> y \<in> set (Set_add x s0)"
        unfolding members_iff E by simp
      also have "\<dots> \<longleftrightarrow> y = x \<or> y \<in> set s0" by (simp add: set_Set_add)
      also have "\<dots> \<longleftrightarrow> y = x \<or> (k, y) \<in> members A"
        unfolding members_iff s0_def using Map_get_cases [OF d, of k y] by simp
      finally show ?thesis by (simp add: p True c)
    next
      case False
      have "(k', y) \<in> members (addCall c A) \<longleftrightarrow> (k', y) \<in> members A"
        unfolding members_iff E using False by simp
      then show ?thesis using False by (simp add: p c)
    qed
  qed
  then show ?thesis by (rule set_eqI)
qed

lemma fold_addCall:
  "isMapOfSets A \<Longrightarrow> isMapOfSets (fold addCall xs A) \<and> members (fold addCall xs A) = set xs \<union> members A"
proof (induction xs arbitrary: A)
  case Nil
  then show ?case by simp
next
  case (Cons c xs)
  have "isMapOfSets (addCall c A)" using Cons.prems by (rule addCall_isMapOfSets)
  from Cons.IH [OF this] show ?case
    using Cons.prems by (simp add: addCall_members)
qed

lemma countNodes_sizes: "countNodes A n = n + sizes A"
  by (induction A arbitrary: n) (auto simp: sizes_def)

lemma members_Cons: "members ((k, s) # A) = (Pair k ` set s) \<union> members A"
  by (auto simp: members_def)

lemma members_keys: "(k, x) \<in> members A \<Longrightarrow> k \<in> fst ` set A"
  by (force simp: members_def)

lemma finite_members: "finite (members A)"
proof (induction A)
  case Nil
  show ?case by (simp add: members_def)
next
  case (Cons e A)
  obtain k s where e: "e = (k, s)" by (cases e)
  show ?case using Cons.IH by (simp add: e members_Cons)
qed

lemma sizes_card: "isMapOfSets A \<Longrightarrow> sizes A = card (members A)"
proof (induction A)
  case Nil
  show ?case by (simp add: sizes_def members_def)
next
  case (Cons e A)
  obtain k s where e: "e = (k, s)" by (cases e)
  have w: "isMapOfSets A" and ds: "distinct s" and k: "k \<notin> fst ` set A"
    using Cons.prems by (auto simp: isMapOfSets_def e)
  have disj: "(Pair k ` set s) \<inter> members A = {}"
    using k members_keys by fastforce
  have "card (Pair k ` set s) = length s"
    using ds by (simp add: card_image inj_on_def distinct_card)
  then have "card (members (e # A)) = length s + card (members A)"
    using disj by (simp add: e members_Cons card_Un_disjoint finite_members)
  then show ?case using Cons.IH [OF w] by (simp add: sizes_def e)
qed

lemma extractAssertions_eq:
  "extractAssertions names files =
     (fold addCall (recognizedCalls names files) [], card (set (recognizedCalls names files)))"
proof -
  have w: "isMapOfSets ([] :: (Assertion, NodeObj Set) Map)" by (simp add: isMapOfSets_def)
  have m: "members ([] :: (Assertion, NodeObj Set) Map) = {}" by (simp add: members_def)
  from fold_addCall [OF w, of "recognizedCalls names files"] m
  show ?thesis
    by (simp add: extractAssertions_def Let_def files_fold countNodes_sizes sizes_card)
qed


section \<open>The Expected-Error Index, characterised\<close>

lemma parseLoop_eq:
  "\<forall>e \<in> set m. locId (fst e) < length m \<Longrightarrow>
   parseLoop ts nodes m =
     m @ map (\<lambda>p. (locationOf ts (fst p) (snd p), snd p)) (zip [length m..<length m + length nodes] nodes)"
proof (induction nodes arbitrary: m)
  case Nil
  show ?case by simp
next
  case (Cons node nodes)
  let ?l = "locationOf ts (length m) node"
  have fresh: "?l \<notin> fst ` set m"
  proof
    assume "?l \<in> fst ` set m"
    then obtain e where "e \<in> set m" "fst e = ?l" by auto
    then have "locId ?l < length m" using Cons.prems by force
    then show False by (simp add: locationOf_def)
  qed
  then have step: "Map_set ?l node m = m @ [(?l, node)]"
    by (simp add: Map_set_def)
  have inv: "\<forall>e \<in> set (m @ [(?l, node)]). locId (fst e) < length (m @ [(?l, node)])"
    using Cons.prems by (auto simp: locationOf_def less_Suc_eq)
  have "parseLoop ts (node # nodes) m = parseLoop ts nodes (m @ [(?l, node)])"
    using step by (simp add: locationOf_def Let_def)
  also have "\<dots> = (m @ [(?l, node)]) @
      map (\<lambda>p. (locationOf ts (fst p) (snd p), snd p))
        (zip [Suc (length m)..<Suc (length m) + length nodes] nodes)"
    using Cons.IH [OF inv] by simp
  also have "\<dots> = m @ map (\<lambda>p. (locationOf ts (fst p) (snd p), snd p))
        (zip [length m..<length m + length (node # nodes)] (node # nodes))"
    by (simp add: upt_conv_Cons del: upt_Suc)
  finally show ?case .
qed

lemma parseLoop_empty:
  "parseLoop ts nodes [] = map (\<lambda>p. (locationOf ts (fst p) (snd p), snd p)) (zip [0..<length nodes] nodes)"
  using parseLoop_eq [of "[]" ts nodes] by simp

lemma parseLoop_nodes: "map snd (parseLoop ts nodes []) = nodes"
  by (simp add: parseLoop_empty o_def)

lemma parseLoop_ids: "map (\<lambda>e. locId (fst e)) (parseLoop ts nodes []) = [0..<length nodes]"
proof -
  have "map (\<lambda>e. locId (fst e)) (parseLoop ts nodes []) = map fst (zip [0..<length nodes] nodes)"
    by (simp add: parseLoop_empty o_def locationOf_def)
  then show ?thesis by simp
qed

lemma parseLoop_keys_distinct: "distinct (map fst (parseLoop ts nodes []))"
proof -
  have "distinct (map locId (map fst (parseLoop ts nodes [])))"
    using parseLoop_ids [of ts nodes] by (simp add: o_def)
  then show ?thesis
    using distinct_map [of locId "map fst (parseLoop ts nodes [])"] by blast
qed

lemma parseLoop_entry:
  "(l, e) \<in> set (parseLoop ts nodes []) \<Longrightarrow>
     e \<in> set nodes \<and> fileName l = getSourceFileName ts e \<and> start l = getStart ts e \<and>
     end' l = getEnd ts e"
  by (auto simp: parseLoop_empty locationOf_def dest: set_zip_rightD)

lemma assertionsOf_eq:
  "assertionsOf imports program =
     fold addCall (recognizedCalls (assertionFnNames imports) (getSourceFiles program)) []"
  by (simp add: assertionsOf_def extractAssertions_eq)

lemma assertionsOf_isMapOfSets: "isMapOfSets (assertionsOf imports program)"
proof -
  have "isMapOfSets ([] :: (Assertion, NodeObj Set) Map)" by (simp add: isMapOfSets_def)
  from fold_addCall [OF this] show ?thesis by (simp add: assertionsOf_eq)
qed

lemma assertionsOf_members:
  "members (assertionsOf imports program) =
     set (recognizedCalls (assertionFnNames imports) (getSourceFiles program))"
proof -
  have w: "isMapOfSets ([] :: (Assertion, NodeObj Set) Map)" by (simp add: isMapOfSets_def)
  have "members ([] :: (Assertion, NodeObj Set) Map) = {}" by (simp add: members_def)
  with fold_addCall [OF w] show ?thesis by (simp add: assertionsOf_eq)
qed

lemma index_nodes_distinct: "distinct (map snd (expectedErrorsOf imports program))"
proof (cases "Map_get (assertionsOf imports program) (EXPECT_ERROR imports)")
  case None
  then show ?thesis by (simp add: expectedErrorsOf_def parseErrorAssertionToLocation_def)
next
  case (Some nodes)
  have w: "isMapOfSets (assertionsOf imports program)" by (rule assertionsOf_isMapOfSets)
  then have "(EXPECT_ERROR imports, nodes) \<in> set (assertionsOf imports program)"
    using Some by (simp add: isMapOfSets_def Map_get_Some)
  then have "distinct nodes" using w by (auto simp: isMapOfSets_def)
  then show ?thesis
    using Some by (simp add: expectedErrorsOf_def parseErrorAssertionToLocation_def parseLoop_nodes)
qed

lemma index_keys_distinct: "distinct (map fst (expectedErrorsOf imports program))"
  by (simp add: expectedErrorsOf_def parseErrorAssertionToLocation_def parseLoop_keys_distinct
      split: option.splits)

lemma index_entry:
  "(l, e) \<in> set (expectedErrorsOf imports program) \<Longrightarrow>
     fileName l = getSourceFileName (nodeMethods imports) e \<and>
     start l = getStart (nodeMethods imports) e \<and> end' l = getEnd (nodeMethods imports) e"
  by (auto simp: expectedErrorsOf_def parseErrorAssertionToLocation_def
      split: option.splits dest: parseLoop_entry)

lemma index_nodes:
  "set (map snd (expectedErrorsOf imports program)) =
     {node. (EXPECT_ERROR imports, node) \<in>
              set (recognizedCalls (assertionFnNames imports) (getSourceFiles program))}"
proof -
  have w: "isMapOfSets (assertionsOf imports program)" by (rule assertionsOf_isMapOfSets)
  then have d: "distinct (map fst (assertionsOf imports program))" by (simp add: isMapOfSets_def)
  have "set (map snd (expectedErrorsOf imports program)) =
          set (case Map_get (assertionsOf imports program) (EXPECT_ERROR imports) of
                 Some s \<Rightarrow> s | None \<Rightarrow> [])"
    by (cases "Map_get (assertionsOf imports program) (EXPECT_ERROR imports)")
       (simp_all add: expectedErrorsOf_def parseErrorAssertionToLocation_def parseLoop_nodes
          del: set_map)
  also have "\<dots> = {node. (EXPECT_ERROR imports, node) \<in> members (assertionsOf imports program)}"
    using Map_get_cases [OF d, of "EXPECT_ERROR imports"] by (auto simp: members_iff)
  finally show ?thesis by (simp add: assertionsOf_members)
qed

lemma find_Some_member: "find P xs = Some x \<Longrightarrow> x \<in> set xs \<and> P x"
  by (induction xs) (auto split: if_splits)

section \<open>The pipeline, characterised\<close>

lemma checkProgram_reconciled:
  "checkProgram imports program =
     \<lparr>assertionCount = snd (extractAssertions (assertionFnNames imports) (getSourceFiles program)),
      tsdResults = pushNotFound (remainingExpectedErrors imports program)
                     (fst (reconciled imports program)),
      tsdErrors = None\<rparr>"
  by (simp add: checkProgram_def Let_def split_def remainingExpectedErrors_def reconciled_def
      seedResults_def assertionsOf_def expectedErrorsOf_def)

lemma reconciled_eq:
  "reconciled imports program =
     (seedResults imports program
        @ map DiagnosticResult (preserved (expectedErrorsOf imports program) (getSemanticDiagnostics program)),
      foundLocations (expectedErrorsOf imports program) (getSemanticDiagnostics program))"
  by (simp add: reconciled_def reconcile_eq)

lemma remaining_eq:
  "remainingExpectedErrors imports program =
     filter (\<lambda>entry. \<not> matchedBy (expectedErrorsOf imports program)
                          (getSemanticDiagnostics program) (fst entry))
       (expectedErrorsOf imports program)"
  by (simp add: remainingExpectedErrors_def reconciled_eq deleteFound_eq set_foundLocations)

lemma results_eq:
  "tsdResults (checkProgram imports program) =
     seedResults imports program
     @ map DiagnosticResult (preserved (expectedErrorsOf imports program) (getSemanticDiagnostics program))
     @ map notFound (remainingExpectedErrors imports program)"
  by (simp add: checkProgram_reconciled reconciled_eq pushNotFound_eq)




lemma drop_diagnostic:
  assumes "\<not> (classified d \<and> isIgnoredDiagnostic d idx = Preserve)" and "matchOf idx d = []"
  shows "reconcile idx (ds1 @ d # ds2) st = reconcile idx (ds1 @ ds2) st"
proof -
  obtain rs fs where st: "st = (rs, fs)" by (cases st)
  show ?thesis using assms by (simp add: st reconcile_eq preserved_def foundLocations_def)
qed

lemma semantic_update [simp]:
  "assertionsOf imports (program\<lparr>getSemanticDiagnostics := ds\<rparr>) = assertionsOf imports program"
  "expectedErrorsOf imports (program\<lparr>getSemanticDiagnostics := ds\<rparr>) = expectedErrorsOf imports program"
  "seedResults imports (program\<lparr>getSemanticDiagnostics := ds\<rparr>) = seedResults imports program"
  by (simp_all add: assertionsOf_def expectedErrorsOf_def seedResults_def)

lemma checkProgram_cong:
  assumes "reconcile (expectedErrorsOf imports program) ds (seedResults imports program, []) =
           reconcile (expectedErrorsOf imports program) ds' (seedResults imports program, [])"
  shows "checkProgram imports (program\<lparr>getSemanticDiagnostics := ds\<rparr>) =
         checkProgram imports (program\<lparr>getSemanticDiagnostics := ds'\<rparr>)"
  using assms
  by (simp add: checkProgram_reconciled remainingExpectedErrors_def reconciled_def)

lemma prog_update: "(prog ds)\<lparr>getSemanticDiagnostics := ds'\<rparr> = prog ds'"
  by (simp add: prog_def)

lemma scan_Matched: "scan d m = Matched l \<Longrightarrow> l \<in> fst ` set m \<and> contains l d"
  by (induction m) (auto split: if_splits)

lemma isIgnoredDiagnostic_Matched:
  "isIgnoredDiagnostic d idx = Matched l \<Longrightarrow>
     code d \<in> expectErrorDiagnosticCodesToIgnore \<and> l \<in> fst ` set idx \<and> strictlyInside d l"
  by (auto simp: isIgnoredDiagnostic_def contains_strictlyInside split: if_splits dest: scan_Matched)

lemma scan_Preserve: "\<forall>entry \<in> set m. \<not> contains (fst entry) d \<Longrightarrow> scan d m = Preserve"
  by (induction m) auto

lemma isIgnoredDiagnostic_outside:
  "code d \<notin> ignoredDiagnostics \<Longrightarrow> \<forall>entry \<in> set idx. \<not> strictlyInside d (fst entry) \<Longrightarrow>
     isIgnoredDiagnostic d idx = Preserve"
  by (simp add: isIgnoredDiagnostic_def scan_Preserve contains_strictlyInside)

lemma foundLocations_all_matched:
  "\<forall>d \<in> set ds. classified d \<and> isIgnoredDiagnostic d idx = Matched l \<Longrightarrow>
     foundLocations idx ds = replicate (length ds) l \<and> preserved idx ds = []"
  by (induction ds) (auto simp: foundLocations_def matchOf_def preserved_def)

lemma length_delete_key:
  "distinct (map fst m) \<Longrightarrow> l \<in> fst ` set m \<Longrightarrow>
     length (filter (\<lambda>entry. fst entry \<noteq> l) m) = length m - 1"
proof (induction m)
  case Nil
  then show ?case by simp
next
  case (Cons e m)
  show ?case
  proof (cases "fst e = l")
    case True
    then have "l \<notin> fst ` set m" using Cons.prems by auto
    then have "filter (\<lambda>entry. fst entry \<noteq> l) m = m"
      by (intro filter_True) auto
    then show ?thesis using True by simp
  next
    case False
    then have "l \<in> fst ` set m" using Cons.prems by auto
    then have "m \<noteq> []" by auto
    then have "0 < length m" by simp
    moreover have "length (filter (\<lambda>entry. fst entry \<noteq> l) m) = length m - 1"
      using Cons.IH Cons.prems \<open>l \<in> fst ` set m\<close> by simp
    ultimately show ?thesis using False by simp
  qed
qed

lemma recognizedCalls_member:
  assumes "sourceFile \<in> set sourceFiles" and "n \<in> set (nodesOf sourceFile)"
    and "callee n = Some identifier" and "identifier \<in> set names"
  shows "(identifier, self n) \<in> set (recognizedCalls names sourceFiles)"
  using assms by (force simp: recognizedCalls_def)

lemma recognizedCalls_distinct:
  "distinct (map self ns) \<Longrightarrow>
   distinct (concat (map (\<lambda>n. case callee n of
                         None \<Rightarrow> []
                       | Some identifier \<Rightarrow> if identifier \<in> set names then [(identifier, self n)] else [])
                 ns))"
proof (induction ns)
  case Nil
  show ?case by simp
next
  case (Cons n ns)
  have "snd p \<in> self ` set ns"
    if "p \<in> set (concat (map (\<lambda>n. case callee n of
                         None \<Rightarrow> []
                       | Some identifier \<Rightarrow> if identifier \<in> set names then [(identifier, self n)] else [])
                 ns))" for p
    using that by (auto split: option.splits if_splits)
  then show ?case using Cons by (auto split: option.splits)
qed

section \<open>The claims\<close>

text \<open>
  C1. For a semantic diagnostic with a span whose code is in the suppressible set, the
  classifier returns \<open>Matched entry\<close> exactly when \<open>entry\<close> is the first entry of the
  index, in its iteration order, that has the diagnostic's file name and strictly contains
  its start offset (\<open>start entry < diagnosticStart d < end' entry\<close>); it returns
  \<open>Preserve\<close> exactly when no entry does so, and it never returns \<open>Ignore\<close>.
\<close>

theorem C1_first_containing_entry:
  assumes "isDiagnosticWithLocation d" and "code d \<in> expectErrorDiagnosticCodesToIgnore"
  shows "(\<forall>l. isIgnoredDiagnostic d idx = Matched l \<longleftrightarrow>
               find (strictlyInside d) (map fst idx) = Some l) \<and>
         (isIgnoredDiagnostic d idx = Preserve \<longleftrightarrow>
               \<not> (\<exists>l \<in> set (map fst idx). strictlyInside d l)) \<and>
         isIgnoredDiagnostic d idx \<noteq> Ignore"
proof -
  have c: "contains = (\<lambda>l d. strictlyInside d l)"
    by (intro ext) (simp add: contains_strictlyInside)
  have e: "isIgnoredDiagnostic d idx =
      (case find (strictlyInside d) (map fst idx) of None \<Rightarrow> Preserve | Some l \<Rightarrow> Matched l)"
    using assms(2) codes_disjoint [OF assms(2)]
    by (simp add: isIgnoredDiagnostic_def scan_find c)
  show ?thesis
  proof (cases "find (strictlyInside d) (map fst idx)")
    case None
    then have "\<not> (\<exists>l \<in> set (map fst idx). strictlyInside d l)"
      by (simp only: find_None_iff) blast
    then show ?thesis using None by (simp add: e)
  next
    case (Some l)
    from find_Some_member [OF this]
    have "\<exists>l \<in> set (map fst idx). strictlyInside d l" by blast
    then show ?thesis using Some by (simp add: e)
  qed
qed

text \<open>
  With the outer span first the outer one is returned although the inner one also contains
  the offset; with the inner span first the inner one is. An offset on a bound, or in
  another file, is preserved.
\<close>

theorem C1_witness:
  "isIgnoredDiagnostic (dg 2322 ''/p/a.test.ts'' 25) [(outer, ()), (inner, ())] = Matched outer \<and>
   isIgnoredDiagnostic (dg 2322 ''/p/a.test.ts'' 25) [(inner, ()), (outer, ())] = Matched inner \<and>
   isIgnoredDiagnostic (dg 2322 ''/p/a.test.ts'' 10) [(outer, ()), (inner, ())] = Preserve \<and>
   isIgnoredDiagnostic (dg 2322 ''/p/a.test.ts'' 40) [(outer, ()), (inner, ())] = Preserve \<and>
   isIgnoredDiagnostic (dg 2322 ''/p/b.test.ts'' 25) [(outer, ()), (inner, ())] = Preserve"
proof -
  have h: "isDiagnosticWithLocation (dg 2322 f s)" "code (dg 2322 f s) \<in> expectErrorDiagnosticCodesToIgnore" for f s
    by (simp_all add: isDiagnosticWithLocation_def dg_def expectErrorDiagnosticCodesToIgnore_def)
  show ?thesis
    using C1_first_containing_entry [OF h, of "''/p/a.test.ts''" 25 "[(outer, ()), (inner, ())]"]
          C1_first_containing_entry [OF h, of "''/p/a.test.ts''" 25 "[(inner, ()), (outer, ())]"]
          C1_first_containing_entry [OF h, of "''/p/a.test.ts''" 10 "[(outer, ()), (inner, ())]"]
          C1_first_containing_entry [OF h, of "''/p/a.test.ts''" 40 "[(outer, ()), (inner, ())]"]
          C1_first_containing_entry [OF h, of "''/p/b.test.ts''" 25 "[(outer, ()), (inner, ())]"]
    by (simp add: strictlyInside_def dg_def outer_def inner_def)
qed




text \<open>
  C3, as stated, fails: a diagnostic of a dependency file has a span and a code outside both
  sets, the classifier returns \<open>Preserve\<close> for it, yet the loop drops it before the
  classifier is called and it is not in the results.
\<close>

theorem C3_counterexample:
  "isDiagnosticWithLocation (dg 2304 dependencyFile 25) \<and>
   code (dg 2304 dependencyFile 25) \<notin> ignoredDiagnostics \<and>
   code (dg 2304 dependencyFile 25) \<notin> expectErrorDiagnosticCodesToIgnore \<and>
   isIgnoredDiagnostic (dg 2304 dependencyFile 25)
     (expectedErrorsOf (imps [] [] []) (prog [dg 2304 dependencyFile 25])) = Preserve \<and>
   DiagnosticResult (dg 2304 dependencyFile 25)
     \<notin> set (tsdResults (checkProgram (imps [] [] []) (prog [dg 2304 dependencyFile 25])))"
proof -
  have 1: "isDiagnosticWithLocation (dg 2304 dependencyFile 25)"
    by (simp add: isDiagnosticWithLocation_def dg_def)
  have 2: "code (dg 2304 dependencyFile 25) \<notin> ignoredDiagnostics"
    by (simp add: dg_def ignoredDiagnostics_def)
  have 3: "code (dg 2304 dependencyFile 25) \<notin> expectErrorDiagnosticCodesToIgnore"
    by (simp add: dg_def expectErrorDiagnosticCodesToIgnore_def)
  have 4: "isIgnoredDiagnostic (dg 2304 dependencyFile 25)
     (expectedErrorsOf (imps [] [] []) (prog [dg 2304 dependencyFile 25])) = Preserve"
    using 2 3 by (simp add: isIgnoredDiagnostic_def)
  have 5: "tsdResults (checkProgram (imps [] [] []) (prog [dg 2304 dependencyFile 25])) =
     [AssertionResult 42,
      ExpectedErrorResult (nd 1 8 40 (Some 0)) ''Expected an error, but found none.'',
      ExpectedErrorResult (nd 3 48 80 (Some 0)) ''Expected an error, but found none.'']"
    by code_simp
  show ?thesis using 1 2 3 4 by (simp add: 5)
qed

text \<open>
  C3, amended. Precedence of the classifier, for a semantic diagnostic with a file. A code
  of the globally ignored set gives \<open>Ignore\<close> whatever the index holds: the diagnostic can
  be taken out of the semantic diagnostics without any change to the outcome (it satisfies
  no expectation) and it is not in the results. A code outside both sets gives \<open>Preserve\<close>
  whatever the index holds, also inside an expectation span, and the diagnostic is in
  the results unless its file name matches the dependency pattern. The index is read for
  the other codes only.
\<close>

theorem C3_classifier_precedence:
  assumes "file d = Some f"
  shows
  "(code d \<in> ignoredDiagnostics \<longrightarrow>
      (\<forall>idx :: (Location, NodeObj) Map. isIgnoredDiagnostic d idx = Ignore) \<and>
      checkProgram imports (program\<lparr>getSemanticDiagnostics := ds1 @ d # ds2\<rparr>) =
        checkProgram imports (program\<lparr>getSemanticDiagnostics := ds1 @ ds2\<rparr>) \<and>
      DiagnosticResult d \<notin>
        set (tsdResults (checkProgram imports (program\<lparr>getSemanticDiagnostics := ds1 @ d # ds2\<rparr>)))) \<and>
   (code d \<notin> ignoredDiagnostics \<and> code d \<notin> expectErrorDiagnosticCodesToIgnore \<longrightarrow>
      (\<forall>idx :: (Location, NodeObj) Map. isIgnoredDiagnostic d idx = Preserve) \<and>
      (\<not> nodeModulesTest f \<longrightarrow>
         DiagnosticResult d \<in>
           set (tsdResults (checkProgram imports (program\<lparr>getSemanticDiagnostics := ds1 @ d # ds2\<rparr>)))))"
proof (intro conjI impI)
  assume ig: "code d \<in> ignoredDiagnostics"
  then show a: "\<forall>idx :: (Location, NodeObj) Map. isIgnoredDiagnostic d idx = Ignore"
    by (simp add: isIgnoredDiagnostic_def)
  let ?idx = "expectedErrorsOf imports program"
  have "reconcile ?idx (ds1 @ d # ds2) (seedResults imports program, []) =
        reconcile ?idx (ds1 @ ds2) (seedResults imports program, [])"
    using a by (intro drop_diagnostic) (simp_all add: matchOf_def)
  then show "checkProgram imports (program\<lparr>getSemanticDiagnostics := ds1 @ d # ds2\<rparr>) =
        checkProgram imports (program\<lparr>getSemanticDiagnostics := ds1 @ ds2\<rparr>)"
    by (rule checkProgram_cong)
  show "DiagnosticResult d \<notin>
        set (tsdResults (checkProgram imports (program\<lparr>getSemanticDiagnostics := ds1 @ d # ds2\<rparr>)))"
    using a by (auto simp: results_eq seedResults_def preserved_def notFound_def)
next
  assume "code d \<notin> ignoredDiagnostics \<and> code d \<notin> expectErrorDiagnosticCodesToIgnore"
  then show p: "\<forall>idx :: (Location, NodeObj) Map. isIgnoredDiagnostic d idx = Preserve"
    by (simp add: isIgnoredDiagnostic_def)
  assume "\<not> nodeModulesTest f"
  then have "classified d" using assms by (simp add: classified_def)
  then show "DiagnosticResult d \<in>
           set (tsdResults (checkProgram imports (program\<lparr>getSemanticDiagnostics := ds1 @ d # ds2\<rparr>)))"
    using p by (simp add: results_eq preserved_def)
qed

text \<open>
  Inside the first expectation span, code 1378 is ignored and satisfies nothing (both
  expectations are reported); code 2304 is preserved and reported.
\<close>

theorem C3_witness:
  "isIgnoredDiagnostic (dg 1378 ''/p/a.test.ts'' 25) [(outer, nd 1 8 40 (Some 0))] = Ignore \<and>
   tsdResults (checkProgram (imps [] [] []) (prog [dg 1378 ''/p/a.test.ts'' 25])) =
     [AssertionResult 42,
      ExpectedErrorResult (nd 1 8 40 (Some 0)) ''Expected an error, but found none.'',
      ExpectedErrorResult (nd 3 48 80 (Some 0)) ''Expected an error, but found none.''] \<and>
   isIgnoredDiagnostic (dg 2304 ''/p/a.test.ts'' 25) [(outer, nd 1 8 40 (Some 0))] = Preserve \<and>
   DiagnosticResult (dg 2304 ''/p/a.test.ts'' 25) \<in>
     set (tsdResults (checkProgram (imps [] [] []) (prog [dg 2304 ''/p/a.test.ts'' 25])))"
proof -
  let ?I = "imps [] [] [] :: (unit, unit, nat) Imports"
  have f: "file (dg c ''/p/a.test.ts'' 25) = Some ''/p/a.test.ts''" for c
    by (simp add: dg_def)
  have i: "code (dg 1378 ''/p/a.test.ts'' 25) \<in> ignoredDiagnostics"
    by (simp add: dg_def ignoredDiagnostics_def)
  have p: "code (dg 2304 ''/p/a.test.ts'' 25) \<notin> ignoredDiagnostics \<and>
           code (dg 2304 ''/p/a.test.ts'' 25) \<notin> expectErrorDiagnosticCodesToIgnore"
    by (simp add: dg_def ignoredDiagnostics_def expectErrorDiagnosticCodesToIgnore_def)
  have c: "\<not> nodeModulesTest ''/p/a.test.ts''"
    by code_simp
  have e: "tsdResults (checkProgram ?I (prog [])) =
     [AssertionResult 42,
      ExpectedErrorResult (nd 1 8 40 (Some 0)) ''Expected an error, but found none.'',
      ExpectedErrorResult (nd 3 48 80 (Some 0)) ''Expected an error, but found none.'']"
    by code_simp
  show ?thesis
    using C3_classifier_precedence [OF f, of 1378 ?I "[]" "[]" "prog []"]
          C3_classifier_precedence [OF f, of 2304 ?I "[]" "[]" "prog []"]
          i p c e
    by (simp add: prog_update)
qed

text \<open>
  C4. The two gates. When configuration resolution returns diagnostics, \<open>tsdLite\<close> returns
  them as \<open>tsdErrors\<close> with \<open>assertionCount = 0\<close> and no results, and nothing else is
  run: the outcome is the same for any program construction, node methods, evaluator and
  assertion names. Otherwise, when the program has syntactic diagnostics, it returns those
  in the same shape, whatever the node methods, the evaluator, the assertion names, the
  semantic diagnostics and the source files (so whatever assertions the files hold).
\<close>

theorem C4_short_circuit_gates:
  "(snd (resolveCompilerOptions imports path) \<noteq> [] \<longrightarrow>
      tsdLite imports path =
        \<lparr>assertionCount = 0, tsdResults = [],
         tsdErrors = Some (snd (resolveCompilerOptions imports path))\<rparr> \<and>
      tsdLite (imports\<lparr>createProgram := c, nodeMethods := m, handleAssertions := h,
                    assertionFnNames := ns, EXPECT_ERROR := ee\<rparr>) path = tsdLite imports path) \<and>
   (snd (resolveCompilerOptions imports path) = [] \<and>
    getSyntacticDiagnostics
      (createProgram imports [path] (fst (resolveCompilerOptions imports path))) \<noteq> [] \<longrightarrow>
      tsdLite imports path =
        \<lparr>assertionCount = 0, tsdResults = [],
         tsdErrors = Some (getSyntacticDiagnostics
           (createProgram imports [path] (fst (resolveCompilerOptions imports path))))\<rparr> \<and>
      tsdLite (imports\<lparr>nodeMethods := m, handleAssertions := h, assertionFnNames := ns,
                    EXPECT_ERROR := ee\<rparr>) path =
        tsdLite imports path \<and>
      tsdLite (imports\<lparr>createProgram := (\<lambda>paths options.
                 (createProgram imports paths options)\<lparr>getSemanticDiagnostics := ds, getSourceFiles := fs\<rparr>)\<rparr>)
          path = tsdLite imports path)"
  by (simp add: tsdLite_def Let_def split_def)

theorem C4_witness:
  "tsdLite (imps [globalDiagnostic 5083] [dg 1005 ''/p/a.test.ts'' 12] twoInside) ''/p/a.test.ts'' =
     \<lparr>assertionCount = 0, tsdResults = [], tsdErrors = Some [globalDiagnostic 5083]\<rparr> \<and>
   tsdLite (imps [] [dg 1005 ''/p/a.test.ts'' 12] twoInside) ''/p/a.test.ts'' =
     \<lparr>assertionCount = 0, tsdResults = [], tsdErrors = Some [dg 1005 ''/p/a.test.ts'' 12]\<rparr>"
  using C4_short_circuit_gates
          [of "imps [globalDiagnostic 5083] [dg 1005 ''/p/a.test.ts'' 12] twoInside" "''/p/a.test.ts''"]
        C4_short_circuit_gates
          [of "imps [] [dg 1005 ''/p/a.test.ts'' 12] twoInside" "''/p/a.test.ts''"]
  by (simp add: imps_def prog_def)

text \<open>
  C5. Let an expectation span strictly contain a classified diagnostic \<open>d\<close> whose code is
  neither suppressible nor globally ignored, and let every diagnostic strictly inside that
  span have a code outside the suppressible set. Then the results hold both \<open>d\<close> and the
  result \<open>Expected an error, but found none.\<close> of that expectation.
\<close>

theorem C5_unsuppressible_inside_expectation:
  assumes "d \<in> set (getSemanticDiagnostics program)"
    and "classified d"
    and "code d \<notin> ignoredDiagnostics"
    and "code d \<notin> expectErrorDiagnosticCodesToIgnore"
    and "entry \<in> set (expectedErrorsOf imports program)"
    and "strictlyInside d (fst entry)"
    and "\<forall>d' \<in> set (getSemanticDiagnostics program).
           strictlyInside d' (fst entry) \<longrightarrow> code d' \<notin> expectErrorDiagnosticCodesToIgnore"
  shows "DiagnosticResult d \<in> set (tsdResults (checkProgram imports program)) \<and>
         ExpectedErrorResult (snd entry) ''Expected an error, but found none.''
           \<in> set (tsdResults (checkProgram imports program))"
proof -
  let ?idx = "expectedErrorsOf imports program"
  let ?ds = "getSemanticDiagnostics program"
  have "isIgnoredDiagnostic d ?idx = Preserve"
    using assms(3,4) by (simp add: isIgnoredDiagnostic_def)
  then have "d \<in> set (preserved ?idx ?ds)"
    using assms(1,2) by (simp add: preserved_def)
  then have a: "DiagnosticResult d \<in> set (tsdResults (checkProgram imports program))"
    by (simp add: results_eq)
  have "\<not> matchedBy ?idx ?ds (fst entry)"
  proof
    assume "matchedBy ?idx ?ds (fst entry)"
    then obtain d' where "d' \<in> set ?ds" "isIgnoredDiagnostic d' ?idx = Matched (fst entry)"
      by (auto simp: matchedBy_def)
    then show False
      using assms(7) isIgnoredDiagnostic_Matched by blast
  qed
  then have "entry \<in> set (remainingExpectedErrors imports program)"
    using assms(5) by (simp add: remaining_eq)
  then have "notFound entry \<in> set (tsdResults (checkProgram imports program))"
    by (simp add: results_eq)
  then show ?thesis using a by (simp add: notFound_def)
qed

theorem C5_witness:
  "tsdResults (checkProgram (imps [] [] []) (prog [dg 2304 ''/p/a.test.ts'' 25])) =
     [AssertionResult 42, DiagnosticResult (dg 2304 ''/p/a.test.ts'' 25),
      ExpectedErrorResult (nd 1 8 40 (Some 0)) ''Expected an error, but found none.'',
      ExpectedErrorResult (nd 3 48 80 (Some 0)) ''Expected an error, but found none.''] \<and>
   DiagnosticResult (dg 2304 ''/p/a.test.ts'' 25)
     \<in> set (tsdResults (checkProgram (imps [] [] []) (prog [dg 2304 ''/p/a.test.ts'' 25]))) \<and>
   ExpectedErrorResult (nd 1 8 40 (Some 0)) ''Expected an error, but found none.''
     \<in> set (tsdResults (checkProgram (imps [] [] []) (prog [dg 2304 ''/p/a.test.ts'' 25])))"
proof -
  let ?I = "imps [] [] [] :: (unit, unit, nat) Imports"
  let ?d = "dg 2304 ''/p/a.test.ts'' 25"
  let ?entry = "(outer, nd 1 8 40 (Some 0))"
  have h1: "?d \<in> set (getSemanticDiagnostics (prog [?d]))" by (simp add: prog_def)
  have h2: "classified ?d" by code_simp
  have h3: "code ?d \<notin> ignoredDiagnostics"
    by (simp add: dg_def ignoredDiagnostics_def)
  have h4: "code ?d \<notin> expectErrorDiagnosticCodesToIgnore"
    by (simp add: dg_def expectErrorDiagnosticCodesToIgnore_def)
  have idx: "expectedErrorsOf ?I (prog [?d]) =
     [?entry, (later, nd 3 48 80 (Some 0))]"
    by code_simp
  have h5: "?entry \<in> set (expectedErrorsOf ?I (prog [?d]))" by (simp add: idx)
  have h6: "strictlyInside ?d (fst ?entry)"
    by (simp add: strictlyInside_def dg_def outer_def later_def)
  have h7: "\<forall>d' \<in> set (getSemanticDiagnostics (prog [?d])).
           strictlyInside d' (fst ?entry) \<longrightarrow> code d' \<notin> expectErrorDiagnosticCodesToIgnore"
    using h4 by (simp add: prog_def)
  have e: "tsdResults (checkProgram ?I (prog [?d])) =
     [AssertionResult 42, DiagnosticResult ?d,
      ExpectedErrorResult (nd 1 8 40 (Some 0)) ''Expected an error, but found none.'',
      ExpectedErrorResult (nd 3 48 80 (Some 0)) ''Expected an error, but found none.'']"
    by code_simp
  show ?thesis
    using C5_unsuppressible_inside_expectation [OF h1 h2 h3 h4 h5 h6 h7] e by simp
qed

text \<open>
  C6, as stated, fails: a diagnostic without a file whose code is not in the globally
  ignored set is not preserved either; it is not in the results.
\<close>

theorem C6_counterexample:
  "\<not> isDiagnosticWithLocation (globalDiagnostic 2322) \<and>
   code (globalDiagnostic 2322) \<notin> ignoredDiagnostics \<and>
   DiagnosticResult (globalDiagnostic 2322)
     \<notin> set (tsdResults (checkProgram (imps [] [] []) (prog [globalDiagnostic 2322])))"
proof -
  have 1: "\<not> isDiagnosticWithLocation (globalDiagnostic 2322)"
    by (simp add: isDiagnosticWithLocation_def globalDiagnostic_def)
  have 2: "code (globalDiagnostic 2322) \<notin> ignoredDiagnostics"
    by (simp add: globalDiagnostic_def ignoredDiagnostics_def)
  have 3: "tsdResults (checkProgram (imps [] [] []) (prog [globalDiagnostic 2322])) =
     [AssertionResult 42,
      ExpectedErrorResult (nd 1 8 40 (Some 0)) ''Expected an error, but found none.'',
      ExpectedErrorResult (nd 3 48 80 (Some 0)) ''Expected an error, but found none.'']"
    by code_simp
  show ?thesis using 1 2 by (simp add: 3)
qed

text \<open>
  C6, amended. A semantic diagnostic without a file is skipped by the loop, whatever its
  code and whatever the index and the state: it records no found location (it is never
  matched to an expectation), taking it out of the semantic diagnostics changes nothing,
  and it is not in the results. It is always dropped, never preserved; no index makes a
  difference.
\<close>

theorem C6_diagnostic_without_file_skipped:
  assumes "\<not> isDiagnosticWithLocation d"
  shows "reconcile idx (d # ds) st = reconcile idx ds st \<and>
         reconcile idx (ds1 @ d # ds2) st = reconcile idx (ds1 @ ds2) st \<and>
         matchOf idx d = [] \<and>
         checkProgram imports (program\<lparr>getSemanticDiagnostics := ds1 @ d # ds2\<rparr>) =
           checkProgram imports (program\<lparr>getSemanticDiagnostics := ds1 @ ds2\<rparr>) \<and>
         DiagnosticResult d \<notin>
           set (tsdResults (checkProgram imports (program\<lparr>getSemanticDiagnostics := ds1 @ d # ds2\<rparr>)))"
proof -
  have n: "\<not> classified d"
    using assms by (simp add: isDiagnosticWithLocation_def classified_def)
  then have m: "matchOf idx d = []" and m': "matchOf (expectedErrorsOf imports program) d = []"
    by (simp_all add: matchOf_def)
  have r: "reconcile idx (xs @ d # ds2) st = reconcile idx (xs @ ds2) st" for xs
    using n m by (intro drop_diagnostic) simp_all
  have r': "reconcile (expectedErrorsOf imports program) (ds1 @ d # ds2) (seedResults imports program, []) =
            reconcile (expectedErrorsOf imports program) (ds1 @ ds2) (seedResults imports program, [])"
    using n m' by (intro drop_diagnostic) simp_all
  have "checkProgram imports (program\<lparr>getSemanticDiagnostics := ds1 @ d # ds2\<rparr>) =
           checkProgram imports (program\<lparr>getSemanticDiagnostics := ds1 @ ds2\<rparr>)"
    by (rule checkProgram_cong) (rule r')
  moreover have "DiagnosticResult d \<notin>
           set (tsdResults (checkProgram imports (program\<lparr>getSemanticDiagnostics := ds1 @ d # ds2\<rparr>)))"
    using n by (auto simp: results_eq seedResults_def preserved_def notFound_def)
  moreover have "reconcile idx (d # ds) st = reconcile idx ds st"
    using drop_diagnostic [of d idx "[]" ds st] n m by simp
  ultimately show ?thesis using r [of ds1] m by simp
qed

theorem C6_witness:
  "\<not> isDiagnosticWithLocation (globalDiagnostic 2322) \<and>
   tsdResults (checkProgram (imps [] [] []) (prog [globalDiagnostic 2322])) =
     [AssertionResult 42,
      ExpectedErrorResult (nd 1 8 40 (Some 0)) ''Expected an error, but found none.'',
      ExpectedErrorResult (nd 3 48 80 (Some 0)) ''Expected an error, but found none.'']"
proof -
  let ?I = "imps [] [] [] :: (unit, unit, nat) Imports"
  have h: "\<not> isDiagnosticWithLocation (globalDiagnostic 2322)"
    by (simp add: isDiagnosticWithLocation_def globalDiagnostic_def)
  have e: "tsdResults (checkProgram ?I (prog [])) =
     [AssertionResult 42,
      ExpectedErrorResult (nd 1 8 40 (Some 0)) ''Expected an error, but found none.'',
      ExpectedErrorResult (nd 3 48 80 (Some 0)) ''Expected an error, but found none.'']"
    by code_simp
  show ?thesis
    using C6_diagnostic_without_file_skipped
            [OF h, of "[] :: (Location, NodeObj) Map" "[]" "([] :: nat TsdResult list, [])"
               "[]" "[]" ?I "prog []"] h e
    by (simp add: prog_update)
qed

text \<open>
  C7, as stated, fails: a diagnostic of a dependency file lies outside every expectation
  span and its code is not globally ignored, yet it is not in the results.
\<close>

theorem C7_counterexample:
  "dependencyDiagnostic \<in> set (getSemanticDiagnostics (prog [dependencyDiagnostic])) \<and>
   isDiagnosticWithLocation dependencyDiagnostic \<and>
   code dependencyDiagnostic \<notin> ignoredDiagnostics \<and>
   expectedErrorsOf (imps [] [] []) (prog [dependencyDiagnostic]) =
     [(outer, nd 1 8 40 (Some 0)),
      (later, nd 3 48 80 (Some 0))] \<and>
   \<not> strictlyInside dependencyDiagnostic (outer) \<and>
   \<not> strictlyInside dependencyDiagnostic (later) \<and>
   diagnosticStart dependencyDiagnostic < 10 \<and>
   DiagnosticResult dependencyDiagnostic
     \<notin> set (tsdResults (checkProgram (imps [] [] []) (prog [dependencyDiagnostic])))"
proof -
  have 1: "dependencyDiagnostic \<in> set (getSemanticDiagnostics (prog [dependencyDiagnostic]))"
    by (simp add: prog_def)
  have 2: "isDiagnosticWithLocation dependencyDiagnostic"
    by (simp add: isDiagnosticWithLocation_def dependencyDiagnostic_def dg_def)
  have 3: "code dependencyDiagnostic \<notin> ignoredDiagnostics"
    by (simp add: dependencyDiagnostic_def dg_def ignoredDiagnostics_def)
  have 4: "expectedErrorsOf (imps [] [] []) (prog [dependencyDiagnostic]) =
     [(outer, nd 1 8 40 (Some 0)),
      (later, nd 3 48 80 (Some 0))]"
    by code_simp
  have 5: "\<not> strictlyInside dependencyDiagnostic (outer)"
    by (simp add: strictlyInside_def dependencyDiagnostic_def dg_def outer_def later_def)
  have 6: "\<not> strictlyInside dependencyDiagnostic (later)"
    by (simp add: strictlyInside_def dependencyDiagnostic_def dg_def outer_def later_def)
  have 7: "diagnosticStart dependencyDiagnostic < 10"
    by (simp add: dependencyDiagnostic_def dg_def)
  have 8: "tsdResults (checkProgram (imps [] [] []) (prog [dependencyDiagnostic])) =
     [AssertionResult 42,
      ExpectedErrorResult (nd 1 8 40 (Some 0)) ''Expected an error, but found none.'',
      ExpectedErrorResult (nd 3 48 80 (Some 0)) ''Expected an error, but found none.'']"
    by code_simp
  show ?thesis using 1 2 3 4 5 6 7 by (simp add: 8)
qed

text \<open>
  C7, amended. A semantic diagnostic that is classified (it has a file, and the file is not
  under a dependency directory), whose code is not globally ignored and whose start offset
  is strictly inside no expectation span of the index, is in the results. It stays surfaced
  by the loop when the index is any index whose entries are entries of the first one or do
  not strictly contain the diagnostic's start: expectations added elsewhere do not
  suppress it.
\<close>

theorem C7_outside_diagnostics_surface:
  assumes "d \<in> set (getSemanticDiagnostics program)"
    and "classified d"
    and "code d \<notin> ignoredDiagnostics"
    and "\<forall>entry \<in> set (expectedErrorsOf imports program). \<not> strictlyInside d (fst entry)"
  shows "DiagnosticResult d \<in> set (tsdResults (checkProgram imports program)) \<and>
         (\<forall>idx' :: (Location, NodeObj) Map.
            (\<forall>entry \<in> set idx'. entry \<in> set (expectedErrorsOf imports program) \<or>
                                  \<not> strictlyInside d (fst entry)) \<longrightarrow>
            DiagnosticResult d \<in>
              set (fst (reconcile idx' (getSemanticDiagnostics program)
                          (seedResults imports program, []))))"
proof -
  have s: "DiagnosticResult d \<in>
      set (fst (reconcile idx' (getSemanticDiagnostics program) (seedResults imports program, [])))"
    if "\<forall>entry \<in> set idx'. \<not> strictlyInside d (fst entry)" for idx' :: "(Location, NodeObj) Map"
  proof -
    have "isIgnoredDiagnostic d idx' = Preserve"
      using assms(3) that by (rule isIgnoredDiagnostic_outside)
    then have "d \<in> set (preserved idx' (getSemanticDiagnostics program))"
      using assms(1,2) by (simp add: preserved_def)
    then show ?thesis by (simp add: reconcile_eq)
  qed
  have "DiagnosticResult d \<in> set (tsdResults (checkProgram imports program))"
    using s [OF assms(4)] by (simp add: checkProgram_reconciled pushNotFound_eq reconciled_def)
  moreover have "DiagnosticResult d \<in>
      set (fst (reconcile idx' (getSemanticDiagnostics program) (seedResults imports program, [])))"
    if "\<forall>entry \<in> set idx'. entry \<in> set (expectedErrorsOf imports program) \<or>
                                  \<not> strictlyInside d (fst entry)" for idx' :: "(Location, NodeObj) Map"
    using that assms(4) by (intro s) blast
  ultimately show ?thesis by blast
qed

theorem C7_witness:
  "tsdResults (checkProgram (imps [] [] []) (prog [dg 2322 ''/p/a.test.ts'' 45])) =
     [AssertionResult 42, DiagnosticResult (dg 2322 ''/p/a.test.ts'' 45),
      ExpectedErrorResult (nd 1 8 40 (Some 0)) ''Expected an error, but found none.'',
      ExpectedErrorResult (nd 3 48 80 (Some 0)) ''Expected an error, but found none.''] \<and>
   DiagnosticResult (dg 2322 ''/p/a.test.ts'' 45)
     \<in> set (tsdResults (checkProgram (imps [] [] []) (prog [dg 2322 ''/p/a.test.ts'' 45])))"
proof -
  let ?I = "imps [] [] [] :: (unit, unit, nat) Imports"
  let ?d = "dg 2322 ''/p/a.test.ts'' 45"
  have h1: "?d \<in> set (getSemanticDiagnostics (prog [?d]))" by (simp add: prog_def)
  have h2: "classified ?d" by code_simp
  have h3: "code ?d \<notin> ignoredDiagnostics"
    by (simp add: dg_def ignoredDiagnostics_def)
  have idx: "expectedErrorsOf ?I (prog [?d]) =
     [(outer, nd 1 8 40 (Some 0)),
      (later, nd 3 48 80 (Some 0))]"
    by code_simp
  have h4: "\<forall>entry \<in> set (expectedErrorsOf ?I (prog [?d])). \<not> strictlyInside ?d (fst entry)"
    unfolding idx by (simp add: strictlyInside_def dg_def outer_def later_def)
  have m: "DiagnosticResult ?d \<in> set (tsdResults (checkProgram ?I (prog [?d])))"
    using C7_outside_diagnostics_surface [OF h1 h2 h3 h4] by blast
  have e: "tsdResults (checkProgram ?I (prog [?d])) =
     [AssertionResult 42, DiagnosticResult ?d,
      ExpectedErrorResult (nd 1 8 40 (Some 0)) ''Expected an error, but found none.'',
      ExpectedErrorResult (nd 3 48 80 (Some 0)) ''Expected an error, but found none.'']"
    by code_simp
  show ?thesis using m e by simp
qed

text \<open>
  C8. A semantic diagnostic whose file name matches the dependency pattern (a
  \<open>node_modules\<close> segment between two separators) is skipped by the loop before the
  classifier is called, whatever its code, the index and the state: it records no found
  location, taking it out of the semantic diagnostics changes nothing, and it is not in the
  results.
\<close>

theorem C8_dependency_diagnostics_dropped:
  assumes "file d = Some f" and "nodeModulesTest f"
  shows "reconcile idx (d # ds) st = reconcile idx ds st \<and>
         reconcile idx (ds1 @ d # ds2) st = reconcile idx (ds1 @ ds2) st \<and>
         matchOf idx d = [] \<and>
         checkProgram imports (program\<lparr>getSemanticDiagnostics := ds1 @ d # ds2\<rparr>) =
           checkProgram imports (program\<lparr>getSemanticDiagnostics := ds1 @ ds2\<rparr>) \<and>
         DiagnosticResult d \<notin>
           set (tsdResults (checkProgram imports (program\<lparr>getSemanticDiagnostics := ds1 @ d # ds2\<rparr>)))"
proof -
  have n: "\<not> classified d"
    using assms by (simp add: classified_def)
  then have m: "matchOf idx d = []" and m': "matchOf (expectedErrorsOf imports program) d = []"
    by (simp_all add: matchOf_def)
  have r: "reconcile idx (xs @ d # ds2) st = reconcile idx (xs @ ds2) st" for xs
    using n m by (intro drop_diagnostic) simp_all
  have r': "reconcile (expectedErrorsOf imports program) (ds1 @ d # ds2) (seedResults imports program, []) =
            reconcile (expectedErrorsOf imports program) (ds1 @ ds2) (seedResults imports program, [])"
    using n m' by (intro drop_diagnostic) simp_all
  have "checkProgram imports (program\<lparr>getSemanticDiagnostics := ds1 @ d # ds2\<rparr>) =
           checkProgram imports (program\<lparr>getSemanticDiagnostics := ds1 @ ds2\<rparr>)"
    by (rule checkProgram_cong) (rule r')
  moreover have "DiagnosticResult d \<notin>
           set (tsdResults (checkProgram imports (program\<lparr>getSemanticDiagnostics := ds1 @ d # ds2\<rparr>)))"
    using n by (auto simp: results_eq seedResults_def preserved_def notFound_def)
  moreover have "reconcile idx (d # ds) st = reconcile idx ds st"
    using drop_diagnostic [of d idx "[]" ds st] n m by simp
  ultimately show ?thesis using r [of ds1] m by simp
qed

theorem C8_witness:
  "file (dg 2304 dependencyFile 25) = Some dependencyFile \<and> nodeModulesTest dependencyFile \<and>
   tsdResults (checkProgram (imps [] [] []) (prog [dg 2304 dependencyFile 25])) =
     [AssertionResult 42,
      ExpectedErrorResult (nd 1 8 40 (Some 0)) ''Expected an error, but found none.'',
      ExpectedErrorResult (nd 3 48 80 (Some 0)) ''Expected an error, but found none.'']"
proof -
  let ?I = "imps [] [] [] :: (unit, unit, nat) Imports"
  have h: "file (dg 2304 dependencyFile 25) = Some dependencyFile" "nodeModulesTest dependencyFile"
    by (simp add: dg_def) code_simp
  have e: "tsdResults (checkProgram ?I (prog [])) =
     [AssertionResult 42,
      ExpectedErrorResult (nd 1 8 40 (Some 0)) ''Expected an error, but found none.'',
      ExpectedErrorResult (nd 3 48 80 (Some 0)) ''Expected an error, but found none.'']"
    by code_simp
  show ?thesis
    using C8_dependency_diagnostics_dropped
            [OF h, of "[] :: (Location, NodeObj) Map" "[]" "([] :: nat TsdResult list, [])"
               "[]" "[]" ?I "prog []"] h e
    by (simp add: prog_update)
qed

text \<open>
  C9. Matching is many to one. When every diagnostic of a non-empty list, however long, is
  classified and returned the same entry \<open>l\<close> by the classifier run on the whole index,
  the loop surfaces none of them and records \<open>l\<close> once per diagnostic: each one is
  matched against the index as it was built, also after an earlier one found the same
  entry. Deleting all these records is deleting \<open>l\<close> once: the index loses exactly one
  entry, and the results hold no \<open>Expected an error, but found none.\<close> for it.
\<close>

theorem C9_many_to_one:
  assumes "getSemanticDiagnostics program \<noteq> []"
    and "\<forall>d \<in> set (getSemanticDiagnostics program).
           classified d \<and> isIgnoredDiagnostic d (expectedErrorsOf imports program) = Matched l"
  shows "reconciled imports program =
           (seedResults imports program, replicate (length (getSemanticDiagnostics program)) l) \<and>
         remainingExpectedErrors imports program = Map_delete l (expectedErrorsOf imports program) \<and>
         length (remainingExpectedErrors imports program) =
           length (expectedErrorsOf imports program) - 1 \<and>
         tsdResults (checkProgram imports program) =
           seedResults imports program @ map notFound (Map_delete l (expectedErrorsOf imports program)) \<and>
         (\<forall>e. (l, e) \<in> set (expectedErrorsOf imports program) \<longrightarrow>
            ExpectedErrorResult e ''Expected an error, but found none.''
              \<notin> set (tsdResults (checkProgram imports program)))"
proof -
  let ?idx = "expectedErrorsOf imports program"
  let ?ds = "getSemanticDiagnostics program"
  note f = foundLocations_all_matched [OF assms(2)]
  have rec: "reconciled imports program = (seedResults imports program, replicate (length ?ds) l)"
    using f by (simp add: reconciled_eq)
  have s: "set (replicate (length ?ds) l) = {l}"
    using assms(1) by simp
  have rem: "remainingExpectedErrors imports program = Map_delete l ?idx"
    by (simp add: remainingExpectedErrors_def rec deleteFound_eq s Map_delete_def split_def)
  obtain d where "d \<in> set ?ds" using assms(1) by (cases ?ds) auto
  then have "isIgnoredDiagnostic d ?idx = Matched l" using assms(2) by blast
  then have key: "l \<in> fst ` set ?idx" by (simp add: isIgnoredDiagnostic_Matched)
  have len: "length (Map_delete l ?idx) = length ?idx - 1"
    using length_delete_key [OF index_keys_distinct key]
    by (simp add: Map_delete_def split_def)
  have res: "tsdResults (checkProgram imports program) =
      seedResults imports program @ map notFound (Map_delete l ?idx)"
    using f by (simp add: results_eq rem)
  have none: "ExpectedErrorResult e ''Expected an error, but found none.''
      \<notin> set (tsdResults (checkProgram imports program))" if "(l, e) \<in> set ?idx" for e
  proof
    assume "ExpectedErrorResult e ''Expected an error, but found none.''
      \<in> set (tsdResults (checkProgram imports program))"
    then obtain entry where en: "entry \<in> set ?idx" "fst entry \<noteq> l" "snd entry = e"
      by (auto simp: res seedResults_def notFound_def Map_delete_def)
    have "inj_on snd (set ?idx)"
      using index_nodes_distinct [of "imports" program] by (simp add: distinct_map)
    then have "entry = (l, e)"
      using en(1,3) that inj_onD [of snd "set ?idx" entry "(l, e)"] by simp
    then show False using en(2) by simp
  qed
  show ?thesis using rec rem len res none by (simp only: simp_thms) blast
qed

theorem C9_witness:
  "reconciled (imps [] [] []) (prog threeInside) =
     ([AssertionResult 42],
      [outer, outer,
       outer]) \<and>
   remainingExpectedErrors (imps [] [] []) (prog threeInside) =
     [(later, nd 3 48 80 (Some 0))] \<and>
   tsdResults (checkProgram (imps [] [] []) (prog threeInside)) =
     [AssertionResult 42,
      ExpectedErrorResult (nd 3 48 80 (Some 0)) ''Expected an error, but found none.'']"
proof -
  let ?I = "imps [] [] [] :: (unit, unit, nat) Imports"
  let ?l = "outer"
  have h1: "getSemanticDiagnostics (prog threeInside) \<noteq> []"
    by (simp add: prog_def threeInside_def)
  have h2: "\<forall>d \<in> set (getSemanticDiagnostics (prog threeInside)).
           classified d \<and> isIgnoredDiagnostic d (expectedErrorsOf ?I (prog threeInside)) = Matched ?l"
    by code_simp
  have idx: "expectedErrorsOf ?I (prog threeInside) =
     [(?l, nd 1 8 40 (Some 0)),
      (later, nd 3 48 80 (Some 0))]"
    by code_simp
  have seed: "seedResults ?I (prog threeInside) = [AssertionResult 42]"
    by code_simp
  have del: "Map_delete ?l (expectedErrorsOf ?I (prog threeInside)) =
     [(later, nd 3 48 80 (Some 0))]"
    unfolding idx by code_simp
  have len: "length (getSemanticDiagnostics (prog threeInside)) = 3"
    by (simp add: prog_def threeInside_def)
  have r3: "replicate 3 ?l = [?l, ?l, ?l]"
    by (simp add: numeral_3_eq_3)
  note t = C9_many_to_one [OF h1 h2]
  from t have "reconciled ?I (prog threeInside) =
      (seedResults ?I (prog threeInside), replicate (length (getSemanticDiagnostics (prog threeInside))) ?l)"
    by blast
  then have a: "reconciled ?I (prog threeInside) = ([AssertionResult 42], [?l, ?l, ?l])"
    by (simp only: seed len r3)
  from t have "remainingExpectedErrors ?I (prog threeInside) =
      Map_delete ?l (expectedErrorsOf ?I (prog threeInside))"
    by blast
  then have b: "remainingExpectedErrors ?I (prog threeInside) =
     [(later, nd 3 48 80 (Some 0))]"
    by (simp only: del)
  from t have "tsdResults (checkProgram ?I (prog threeInside)) =
      seedResults ?I (prog threeInside) @ map notFound (Map_delete ?l (expectedErrorsOf ?I (prog threeInside)))"
    by blast
  then have c: "tsdResults (checkProgram ?I (prog threeInside)) =
     [AssertionResult 42,
      ExpectedErrorResult (nd 3 48 80 (Some 0)) ''Expected an error, but found none.'']"
    by (simp only: seed del) (simp add: notFound_def)
  show ?thesis using a b c by (intro conjI)
qed

text \<open>
  C10. \<open>extractAssertions\<close> visits every source file of the program. A call expression
  of any source file whose callee text is one of the assertion names is in the set kept
  under that name; the sets hold exactly the recognized calls of all files.
  \<open>assertionCount\<close> is the sum of the sizes of the sets, which is the number of distinct
  recognized calls of all files, and their number when the nodes are distinct objects. It
  is the \<open>assertionCount\<close> that the pipeline returns.
\<close>

theorem C10_extraction_over_all_files:
  "(\<forall>sourceFile \<in> set sourceFiles. \<forall>n \<in> set (nodesOf sourceFile). \<forall>identifier.
      callee n = Some identifier \<and> identifier \<in> set names \<longrightarrow>
      (\<exists>nodes. Map_get (fst (extractAssertions names sourceFiles)) identifier = Some nodes \<and>
               self n \<in> set nodes)) \<and>
   members (fst (extractAssertions names sourceFiles)) = set (recognizedCalls names sourceFiles) \<and>
   snd (extractAssertions names sourceFiles) = sizes (fst (extractAssertions names sourceFiles)) \<and>
   snd (extractAssertions names sourceFiles) = card (set (recognizedCalls names sourceFiles)) \<and>
   (distinct (map self (concat (map nodesOf sourceFiles))) \<longrightarrow>
      snd (extractAssertions names sourceFiles) = length (recognizedCalls names sourceFiles)) \<and>
   assertionCount (checkProgram imports program) =
     snd (extractAssertions (assertionFnNames imports) (getSourceFiles program))"
proof -
  let ?A = "fst (extractAssertions names sourceFiles)"
  have w0: "isMapOfSets ([] :: (Assertion, NodeObj Set) Map)" by (simp add: isMapOfSets_def)
  have m0: "members ([] :: (Assertion, NodeObj Set) Map) = {}" by (simp add: members_def)
  have A: "?A = fold addCall (recognizedCalls names sourceFiles) []"
    by (simp add: extractAssertions_eq)
  have w: "isMapOfSets ?A" and m: "members ?A = set (recognizedCalls names sourceFiles)"
    using fold_addCall [OF w0, of "recognizedCalls names sourceFiles"] m0 by (simp_all add: A)
  have d: "distinct (map fst ?A)" using w by (simp add: isMapOfSets_def)
  have mem: "\<exists>nodes. Map_get ?A k = Some nodes \<and> self n \<in> set nodes"
    if "sourceFile \<in> set sourceFiles" "n \<in> set (nodesOf sourceFile)"
       "callee n = Some k" "k \<in> set names" for sourceFile n k
  proof -
    have "(k, self n) \<in> members ?A"
      unfolding m using that by (rule recognizedCalls_member)
    then obtain s where "(k, s) \<in> set ?A" "self n \<in> set s"
      by (auto simp: members_iff)
    then show ?thesis using Map_get_Some [OF d] by blast
  qed
  have c: "snd (extractAssertions names sourceFiles) = card (set (recognizedCalls names sourceFiles))"
    by (simp add: extractAssertions_eq)
  have s: "snd (extractAssertions names sourceFiles) = sizes ?A"
    using sizes_card [OF w] by (simp add: c m)
  have l: "snd (extractAssertions names sourceFiles) = length (recognizedCalls names sourceFiles)"
    if "distinct (map self (concat (map nodesOf sourceFiles)))"
  proof -
    have "distinct (recognizedCalls names sourceFiles)"
      unfolding recognizedCalls_def using that by (rule recognizedCalls_distinct)
    then have "card (set (recognizedCalls names sourceFiles)) = length (recognizedCalls names sourceFiles)"
      by (rule distinct_card)
    then show ?thesis by (simp only: c)
  qed
  have a: "assertionCount (checkProgram imports program) =
     snd (extractAssertions (assertionFnNames imports) (getSourceFiles program))"
    by (simp add: checkProgram_reconciled)
  show ?thesis using mem m s c l a by blast
qed

text \<open>The \<open>expectType\<close> call of the imported file is extracted and counted.\<close>

theorem C10_witness:
  "fst (extractAssertions [''expectError'', ''expectType''] [testFile, importedFile]) =
     [(''expectError'', [nd 1 8 40 (Some 0), nd 3 48 80 (Some 0)]),
      (''expectType'', [nd 4 83 95 (Some 0), nd 6 3 20 (Some 5)])] \<and>
   snd (extractAssertions [''expectError'', ''expectType''] [testFile, importedFile]) = 4 \<and>
   assertionCount (checkProgram (imps [] [] []) (prog [])) = 4"
proof -
  let ?I = "imps [] [] [] :: (unit, unit, nat) Imports"
  let ?names = "[''expectError'', ''expectType'']"
  let ?files = "[testFile, importedFile]"
  note t = C10_extraction_over_all_files [of ?files ?names ?I "prog []"]
  have f: "fst (extractAssertions ?names ?files) =
     [(''expectError'', [nd 1 8 40 (Some 0), nd 3 48 80 (Some 0)]),
      (''expectType'', [nd 4 83 95 (Some 0), nd 6 3 20 (Some 5)])]"
    by code_simp
  have dn: "distinct (map self (concat (map nodesOf ?files)))"
    by code_simp
  have len: "length (recognizedCalls ?names ?files) = 4"
    by code_simp
  from t dn have "snd (extractAssertions ?names ?files) = length (recognizedCalls ?names ?files)"
    by blast
  then have c: "snd (extractAssertions ?names ?files) = 4" by (simp only: len)
  from t have "assertionCount (checkProgram ?I (prog [])) =
     snd (extractAssertions (assertionFnNames ?I) (getSourceFiles (prog [])))"
    by blast
  then have a: "assertionCount (checkProgram ?I (prog [])) = 4"
    using c by (simp add: imps_def prog_def)
  show ?thesis using f c a by (intro conjI)
qed


end
